theory Spec2Isabelle
  imports Complex_Main
begin

section \<open>Platformer movement engine (game.py)\<close>

text \<open>
  A shallow embedding of the movement core of \<^verbatim>\<open>game.py\<close>: the collision probe
  \<^verbatim>\<open>check_collision\<close>, the axis-separated \<^verbatim>\<open>Actor.move_x\<close> / \<^verbatim>\<open>Actor.move_y\<close> and the
  velocity logic of \<^verbatim>\<open>Player\<close>.

  Numbers. Positions, remainders, amounts and velocities are Python numbers; they are
  modelled as the real numbers they denote, with exact arithmetic (the rounding error of
  binary floating point is outside this model). Python's \<^verbatim>\<open>round\<close> on one argument yields an
  \<^verbatim>\<open>int\<close> and rounds halves to the even neighbour.

  The tile map. \<^verbatim>\<open>pyxel.tilemap(0)\<close> belongs to the pyxel library, so the map is a parameter:
  a function from column and row to the tile id that \<^verbatim>\<open>tilemap.get\<close> returns there.
\<close>

subsection \<open>Constants\<close>

definition GRAVITY :: real where
  "GRAVITY = 2 / 10"

definition JUMP_POWER :: real where
  "JUMP_POWER = 2"

definition TILE_SIZE :: int where
  "TILE_SIZE = 8"

definition EMPTY_TILE :: int where
  "EMPTY_TILE = 0"

definition PLAYER_TILE :: int where
  "PLAYER_TILE = 1"

definition WALL_TILES :: "int list" where
  "WALL_TILES = [2, 3, 4, 5]"

type_synonym tilemap = "int \<Rightarrow> int \<Rightarrow> int"

subsection \<open>The collision probe\<close>

text \<open>
  The two nested \<^verbatim>\<open>for\<close> loops of \<^verbatim>\<open>check_collision\<close>, each returning at the first wall
  tile. \<open>scan_row\<close> is the inner loop over the columns of one row, \<open>scan_rows\<close> the outer
  loop over the rows.
\<close>

fun scan_row :: "tilemap \<Rightarrow> int \<Rightarrow> int list \<Rightarrow> bool" where
  "scan_row tm ty [] = False"
| "scan_row tm ty (tx # txs) =
     (if tm tx ty \<in> set WALL_TILES then True else scan_row tm ty txs)"

fun scan_rows :: "tilemap \<Rightarrow> int list \<Rightarrow> int list \<Rightarrow> bool" where
  "scan_rows tm txs [] = False"
| "scan_rows tm txs (ty # tys) =
     (if scan_row tm ty txs then True else scan_rows tm txs tys)"

text \<open>
  \<^verbatim>\<open>int(x // TILE_SIZE)\<close> is the floor of the quotient; \<^verbatim>\<open>range(t0, t1 + 1)\<close> is the
  list \<open>[t0..t1]\<close>.
\<close>

definition check_collision :: "tilemap \<Rightarrow> real \<Rightarrow> real \<Rightarrow> bool" where
  "check_collision tm px py =
     (let tx0 = \<lfloor>px / of_int TILE_SIZE\<rfloor>;
          ty0 = \<lfloor>py / of_int TILE_SIZE\<rfloor>;
          tx1 = \<lfloor>(px + of_int TILE_SIZE - 1) / of_int TILE_SIZE\<rfloor>;
          ty1 = \<lfloor>(py + of_int TILE_SIZE - 1) / of_int TILE_SIZE\<rfloor>
      in scan_rows tm [tx0..tx1] [ty0..ty1])"

subsection \<open>Velocity and keyboard\<close>

text \<open>
  \<^verbatim>\<open>Player\<close> extends \<^verbatim>\<open>Actor\<close> with a velocity, the fields \<^verbatim>\<open>vx\<close> and \<^verbatim>\<open>vy\<close>. The
  keyboard belongs to pyxel, so the state of the keys in the current frame is a parameter:
  \<open>btn\<close> tells whether a key is held, \<open>btnp\<close> whether it went down in this frame.
\<close>

record velocity =
  vx :: real
  vy :: real

datatype key = KEY_LEFT | KEY_RIGHT | KEY_UP

record keyboard =
  btn :: "key \<Rightarrow> bool"
  btnp :: "key \<Rightarrow> bool"

subsection \<open>Actors\<close>

text \<open>
  Python's \<^verbatim>\<open>round(r)\<close>: the nearest integer, a half going to the even neighbour.
\<close>

definition py_round :: "real \<Rightarrow> int" where
  "py_round r =
     (let f = \<lfloor>r\<rfloor>; d = r - of_int f
      in if d < 1 / 2 then f
         else if 1 / 2 < d then f + 1
         else if even f then f else f + 1)"

text \<open>
  An \<^verbatim>\<open>Actor\<close> object. The fields a subclass adds are the \<open>more\<close> part of the record
  scheme; \<^verbatim>\<open>Player\<close> adds its velocity there.
\<close>

record actor =
  x :: real
  y :: real
  x_remainder :: real
  y_remainder :: real

definition Actor :: "real \<Rightarrow> real \<Rightarrow> actor" where
  "Actor px py = \<lparr>x = px, y = py, x_remainder = 0, y_remainder = 0\<rparr>"

text \<open>
  The \<^verbatim>\<open>on_collision\<close> argument is \<^verbatim>\<open>None\<close> or a callable without arguments, run for its
  effect. The callbacks of this program write the velocity of the player, so a callback
  is modelled as a function on the \<open>more\<close> part of the actor.
\<close>

definition call_back :: "('m \<Rightarrow> 'm) option \<Rightarrow> 'm actor_scheme \<Rightarrow> 'm actor_scheme" where
  "call_back on_collision a =
     (case on_collision of None \<Rightarrow> a | Some f \<Rightarrow> a\<lparr>more := f (more a)\<rparr>)"

text \<open>
  The \<^verbatim>\<open>while move != 0\<close> loops of \<^verbatim>\<open>move_x\<close> and \<^verbatim>\<open>move_y\<close>. With a \<open>sign\<close> that points
  away from zero the loop of the source would not end, so the loops are partial functions:
  \<open>None\<close> is a loop that runs forever.
\<close>

partial_function (option) loop_x ::
  "tilemap \<Rightarrow> int \<Rightarrow> ('m \<Rightarrow> 'm) option \<Rightarrow> int \<Rightarrow> 'm actor_scheme \<Rightarrow> 'm actor_scheme option"
where
  "loop_x tm sign on_collision move a =
     (if move \<noteq> 0 then
        (if check_collision tm (x a + of_int sign) (y a)
         then Some (call_back on_collision a)
         else loop_x tm sign on_collision (move - sign) (a\<lparr>x := x a + of_int sign\<rparr>))
      else Some a)"

partial_function (option) loop_y ::
  "tilemap \<Rightarrow> int \<Rightarrow> ('m \<Rightarrow> 'm) option \<Rightarrow> int \<Rightarrow> 'm actor_scheme \<Rightarrow> 'm actor_scheme option"
where
  "loop_y tm sign on_collision move a =
     (if move \<noteq> 0 then
        (if check_collision tm (x a) (y a + of_int sign)
         then Some (call_back on_collision a)
         else loop_y tm sign on_collision (move - sign) (a\<lparr>y := y a + of_int sign\<rparr>))
      else Some a)"

definition move_x ::
  "tilemap \<Rightarrow> real \<Rightarrow> ('m \<Rightarrow> 'm) option \<Rightarrow> 'm actor_scheme \<Rightarrow> 'm actor_scheme option"
where
  "move_x tm amount on_collision a =
     (let a1 = a\<lparr>x_remainder := x_remainder a + amount\<rparr>;
          move = py_round (x_remainder a1)
      in if move = 0 then Some a1
         else
           let a2 = a1\<lparr>x_remainder := x_remainder a1 - of_int move\<rparr>;
               sign = (if move > 0 then 1 else - 1)
           in loop_x tm sign on_collision move a2)"

definition move_y ::
  "tilemap \<Rightarrow> real \<Rightarrow> ('m \<Rightarrow> 'm) option \<Rightarrow> 'm actor_scheme \<Rightarrow> 'm actor_scheme option"
where
  "move_y tm amount on_collision a =
     (let a1 = a\<lparr>y_remainder := y_remainder a + amount\<rparr>;
          move = py_round (y_remainder a1)
      in if move = 0 then Some a1
         else
           let a2 = a1\<lparr>y_remainder := y_remainder a1 - of_int move\<rparr>;
               sign = (if move > 0 then 1 else - 1)
           in loop_y tm sign on_collision move a2)"

subsection \<open>The player\<close>

type_synonym player = "velocity actor_scheme"

definition Player :: "real \<Rightarrow> real \<Rightarrow> player" where
  "Player px py =
     \<lparr>x = px, y = py, x_remainder = 0, y_remainder = 0, \<dots> = \<lparr>vx = 0, vy = 0\<rparr>\<rparr>"

definition btni :: "keyboard \<Rightarrow> key \<Rightarrow> int" where
  "btni kb k = (if btn kb k then 1 else 0)"

definition on_horizontal_collision :: "velocity \<Rightarrow> velocity" where
  "on_horizontal_collision v = v\<lparr>vx := 0\<rparr>"

definition on_vertical_collision :: "velocity \<Rightarrow> velocity" where
  "on_vertical_collision v = v\<lparr>vy := 0\<rparr>"

definition apply_gravity :: "keyboard \<Rightarrow> player \<Rightarrow> player" where
  "apply_gravity kb p =
     (let gravity_to_apply = GRAVITY;
          gravity_to_apply =
            (if vy (more p) < 0 then
               (let g = gravity_to_apply * (7 / 10)
                in if btn kb KEY_UP then g * (6 / 10) else g)
             else gravity_to_apply)
      in p\<lparr>more := (more p)\<lparr>vy := vy (more p) + gravity_to_apply\<rparr>\<rparr>)"

definition jump :: "tilemap \<Rightarrow> player \<Rightarrow> player" where
  "jump tm p =
     (if check_collision tm (x p) (y p + of_int TILE_SIZE)
      then p\<lparr>more := (more p)\<lparr>vy := - JUMP_POWER\<rparr>\<rparr>
      else p)"

definition update :: "tilemap \<Rightarrow> keyboard \<Rightarrow> player \<Rightarrow> player option" where
  "update tm kb p =
     (case move_x tm (vx (more p)) (Some on_horizontal_collision) p of
        None \<Rightarrow> None
      | Some p1 \<Rightarrow>
          (case move_y tm (vy (more p1)) (Some on_vertical_collision) p1 of
             None \<Rightarrow> None
           | Some p2 \<Rightarrow>
               (let p3 = p2\<lparr>more := (more p2)\<lparr>vx := of_int (btni kb KEY_RIGHT - btni kb KEY_LEFT)\<rparr>\<rparr>;
                    p4 = apply_gravity kb p3
                in Some (if btnp kb KEY_UP then jump tm p4 else p4))))"

subsection \<open>Sequences of move calls\<close>

text \<open>
  What a client does with an actor over time: a list of calls of \<^verbatim>\<open>move_x\<close> and
  \<^verbatim>\<open>move_y\<close>, each with its amount and its callback, run one after the other.
\<close>

datatype 'm move_call = MoveX real "('m \<Rightarrow> 'm) option" | MoveY real "('m \<Rightarrow> 'm) option"

fun run_call :: "tilemap \<Rightarrow> 'm move_call \<Rightarrow> 'm actor_scheme \<Rightarrow> 'm actor_scheme option" where
  "run_call tm (MoveX amount on_collision) a = move_x tm amount on_collision a"
| "run_call tm (MoveY amount on_collision) a = move_y tm amount on_collision a"

fun run_calls :: "tilemap \<Rightarrow> 'm move_call list \<Rightarrow> 'm actor_scheme \<Rightarrow> 'm actor_scheme option" where
  "run_calls tm [] a = Some a"
| "run_calls tm (c # cs) a =
     (case run_call tm c a of None \<Rightarrow> None | Some a' \<Rightarrow> run_calls tm cs a')"

subsection \<open>Tile maps for examples\<close>

text \<open>
  A map without any wall; a map whose column 5 is a wall of tile 2 from top to bottom
  (world \<open>x\<close> from 40 to 47 with tiles of size 8); and a map whose row 5 is a floor of tile 3
  from left to right (world \<open>y\<close> from 40 to 47).
\<close>

definition no_walls :: tilemap where
  "no_walls tx ty = EMPTY_TILE"

definition wall_column :: tilemap where
  "wall_column tx ty = (if tx = 5 then 2 else EMPTY_TILE)"

definition floor_row :: tilemap where
  "floor_row tx ty = (if ty = 5 then 3 else EMPTY_TILE)"

section \<open>Properties\<close>

subsection \<open>The collision probe: what it computes\<close>

lemma scan_row_iff: "scan_row tm ty txs \<longleftrightarrow> (\<exists>tx \<in> set txs. tm tx ty \<in> set WALL_TILES)"
  by (induction txs) auto

lemma scan_rows_iff:
  "scan_rows tm txs tys \<longleftrightarrow> (\<exists>ty \<in> set tys. \<exists>tx \<in> set txs. tm tx ty \<in> set WALL_TILES)"
  by (induction tys) (auto simp: scan_row_iff)

subsection \<open>Rounding\<close>

lemma py_round_err: "\<bar>r - of_int (py_round r)\<bar> \<le> 1 / 2"
  unfolding py_round_def Let_def by (auto; linarith)

lemma py_round_zero_iff: "py_round r = 0 \<longleftrightarrow> \<bar>r\<bar> \<le> 1 / 2"
proof
  assume "py_round r = 0"
  with py_round_err [of r] show "\<bar>r\<bar> \<le> 1 / 2" by simp
next
  assume a: "\<bar>r\<bar> \<le> 1 / 2"
  have "\<lfloor>r\<rfloor> = 0 \<or> \<lfloor>r\<rfloor> = - 1" using a by linarith
  then show "py_round r = 0"
  proof
    assume f: "\<lfloor>r\<rfloor> = 0"
    with a show ?thesis unfolding py_round_def Let_def by auto
  next
    assume f: "\<lfloor>r\<rfloor> = - 1"
    then have "r < 0" by linarith
    with a f show ?thesis unfolding py_round_def Let_def by auto
  qed
qed

lemma py_round_one: "1 / 2 < r \<Longrightarrow> r < 3 / 2 \<Longrightarrow> py_round r = 1"
proof -
  assume a: "1 / 2 < r" "r < 3 / 2"
  have "\<lfloor>r\<rfloor> = 0 \<or> \<lfloor>r\<rfloor> = 1" using a by linarith
  then show ?thesis using a unfolding py_round_def Let_def by auto
qed

lemma py_round_minus_one: "r < - (1 / 2) \<Longrightarrow> - (3 / 2) < r \<Longrightarrow> py_round r = - 1"
proof -
  assume a: "r < - (1 / 2)" "- (3 / 2) < r"
  have "\<lfloor>r\<rfloor> = - 2 \<or> \<lfloor>r\<rfloor> = - 1" using a by linarith
  then show ?thesis using a unfolding py_round_def Let_def by auto
qed

lemma sign_times_abs:
  fixes m :: int
  shows "(if m > 0 then 1 else - 1) * int (nat \<bar>m\<bar>) = m"
  by simp

subsection \<open>The stepping loops\<close>

lemma loop_x_zero: "loop_x tm sign cb 0 a = Some a"
  by (subst loop_x.simps) simp

lemma loop_x_hit:
  "move \<noteq> 0 \<Longrightarrow> check_collision tm (x a + of_int sign) (y a) \<Longrightarrow>
   loop_x tm sign cb move a = Some (call_back cb a)"
  by (subst loop_x.simps) simp

lemma loop_x_step:
  "move \<noteq> 0 \<Longrightarrow> \<not> check_collision tm (x a + of_int sign) (y a) \<Longrightarrow>
   loop_x tm sign cb move a = loop_x tm sign cb (move - sign) (a\<lparr>x := x a + of_int sign\<rparr>)"
  by (subst loop_x.simps) simp

lemma loop_x_blocked:
  assumes "sign = 1 \<or> sign = - 1"
    and "k < n"
    and "\<forall>j<k. \<not> check_collision tm (x a + of_int sign * (real j + 1)) (y a)"
    and "check_collision tm (x a + of_int sign * (real k + 1)) (y a)"
  shows "loop_x tm sign cb (sign * int n) a =
         Some (call_back cb (a\<lparr>x := x a + of_int sign * real k\<rparr>))"
  using assms
proof (induction k arbitrary: a n)
  case 0
  then have "sign * int n \<noteq> 0" by auto
  moreover from 0 have "check_collision tm (x a + of_int sign) (y a)" by simp
  ultimately show ?case by (simp add: loop_x_hit)
next
  case (Suc k)
  then obtain n' where n: "n = Suc n'" by (cases n) auto
  from Suc.prems have nz: "sign * int n \<noteq> 0" by auto
  from Suc.prems(3) have free0: "\<not> check_collision tm (x a + of_int sign) (y a)"
    by (drule_tac x = 0 in spec) simp
  let ?a = "a\<lparr>x := x a + of_int sign\<rparr>"
  have free: "\<forall>j<k. \<not> check_collision tm (x ?a + of_int sign * (real j + 1)) (y ?a)"
  proof (intro allI impI)
    fix j assume "j < k"
    then have "\<not> check_collision tm (x a + of_int sign * (real (Suc j) + 1)) (y a)"
      using Suc.prems(3) by auto
    then show "\<not> check_collision tm (x ?a + of_int sign * (real j + 1)) (y ?a)"
      by (simp add: algebra_simps)
  qed
  have hit: "check_collision tm (x ?a + of_int sign * (real k + 1)) (y ?a)"
    using Suc.prems(4) by (simp add: algebra_simps)
  have "loop_x tm sign cb (sign * int n) a = loop_x tm sign cb (sign * int n - sign) ?a"
    using nz free0 by (rule loop_x_step)
  also have "sign * int n - sign = sign * int n'" by (simp add: n algebra_simps)
  also have "loop_x tm sign cb (sign * int n') ?a =
             Some (call_back cb (?a\<lparr>x := x ?a + of_int sign * real k\<rparr>))"
    using Suc.prems(1) _ free hit by (rule Suc.IH) (use Suc.prems(2) n in simp)
  finally show ?case by (simp add: algebra_simps)
qed

lemma loop_x_free:
  assumes "sign = 1 \<or> sign = - 1"
    and "\<forall>j<n. \<not> check_collision tm (x a + of_int sign * (real j + 1)) (y a)"
  shows "loop_x tm sign cb (sign * int n) a = Some (a\<lparr>x := x a + of_int sign * real n\<rparr>)"
  using assms
proof (induction n arbitrary: a)
  case 0
  then show ?case by (simp add: loop_x_zero)
next
  case (Suc n)
  from Suc.prems have nz: "sign * int (Suc n) \<noteq> 0" by auto
  from Suc.prems(2) have free0: "\<not> check_collision tm (x a + of_int sign) (y a)"
    by (drule_tac x = 0 in spec) simp
  let ?a = "a\<lparr>x := x a + of_int sign\<rparr>"
  have free: "\<forall>j<n. \<not> check_collision tm (x ?a + of_int sign * (real j + 1)) (y ?a)"
  proof (intro allI impI)
    fix j assume "j < n"
    then have "\<not> check_collision tm (x a + of_int sign * (real (Suc j) + 1)) (y a)"
      using Suc.prems(2) by auto
    then show "\<not> check_collision tm (x ?a + of_int sign * (real j + 1)) (y ?a)"
      by (simp add: algebra_simps)
  qed
  have "loop_x tm sign cb (sign * int (Suc n)) a =
        loop_x tm sign cb (sign * int (Suc n) - sign) ?a"
    using nz free0 by (rule loop_x_step)
  also have "sign * int (Suc n) - sign = sign * int n" by (simp add: algebra_simps)
  also have "loop_x tm sign cb (sign * int n) ?a =
             Some (?a\<lparr>x := x ?a + of_int sign * real n\<rparr>)"
    using Suc.prems(1) free by (rule Suc.IH)
  finally show ?case by (simp add: algebra_simps)
qed

text \<open>
  The loop always returns when \<open>sign\<close> is a unit and \<open>move\<close> a non-negative multiple of it:
  it stops after \<open>k\<close> free steps, either at the first blocked probe (\<open>k < n\<close>, the callback
  runs) or when the count is used up (\<open>k = n\<close>).
\<close>

lemma loop_x_result:
  assumes "sign = 1 \<or> sign = - 1"
  shows "\<exists>k\<le>n. loop_x tm sign cb (sign * int n) a =
           Some ((if k < n then call_back cb else id) (a\<lparr>x := x a + of_int sign * real k\<rparr>)) \<and>
         (\<forall>j<k. \<not> check_collision tm (x a + of_int sign * (real j + 1)) (y a)) \<and>
         (k < n \<longrightarrow> check_collision tm (x a + of_int sign * (real k + 1)) (y a))"
proof (cases "\<exists>j<n. check_collision tm (x a + of_int sign * (real j + 1)) (y a)")
  case True
  define P where "P j \<longleftrightarrow> j < n \<and> check_collision tm (x a + of_int sign * (real j + 1)) (y a)" for j
  from True have "\<exists>j. P j" by (auto simp: P_def)
  then obtain k where k: "P k" and least: "\<forall>j<k. \<not> P j"
    using exists_least_iff [of P] by auto
  from k have kn: "k < n" and hit: "check_collision tm (x a + of_int sign * (real k + 1)) (y a)"
    by (auto simp: P_def)
  from least kn have free: "\<forall>j<k. \<not> check_collision tm (x a + of_int sign * (real j + 1)) (y a)"
    by (auto simp: P_def)
  from loop_x_blocked [OF assms kn free hit, of cb] kn free hit show ?thesis
    by (intro exI [of _ k]) simp
next
  case False
  then have free: "\<forall>j<n. \<not> check_collision tm (x a + of_int sign * (real j + 1)) (y a)"
    by blast
  from loop_x_free [OF assms free, of cb] free show ?thesis
    by (intro exI [of _ n]) simp
qed

lemma upd_swap_x:
  fixes a :: "'m actor_scheme"
  shows "a\<lparr>x_remainder := r, x := v\<rparr> = a\<lparr>x := v, x_remainder := r\<rparr>"
  by (cases a) simp

lemma move_x_result:
  assumes r_def: "r = x_remainder a + amount"
    and m_def: "m = py_round r"
    and sign_def: "sign = (if m > 0 then 1 else - 1)"
  shows "\<exists>k\<le>nat \<bar>m\<bar>. move_x tm amount cb a =
           Some ((if k < nat \<bar>m\<bar> then call_back cb else id)
                   (a\<lparr>x := x a + of_int sign * real k, x_remainder := r - of_int m\<rparr>)) \<and>
         (\<forall>j<k. \<not> check_collision tm (x a + of_int sign * (real j + 1)) (y a)) \<and>
         (k < nat \<bar>m\<bar> \<longrightarrow> check_collision tm (x a + of_int sign * (real k + 1)) (y a))"
proof (cases "m = 0")
  case True
  then have "move_x tm amount cb a = Some (a\<lparr>x_remainder := r\<rparr>)"
    by (simp add: move_x_def m_def r_def)
  with True show ?thesis by (intro exI [of _ 0]) simp
next
  case False
  let ?a = "a\<lparr>x_remainder := r - of_int m\<rparr>"
  have s: "sign = 1 \<or> sign = - 1" by (simp add: sign_def)
  have m: "sign * int (nat \<bar>m\<bar>) = m" unfolding sign_def by (rule sign_times_abs)
  have "move_x tm amount cb a = loop_x tm sign cb m ?a"
    using False by (simp add: move_x_def m_def r_def sign_def Let_def)
  then have eq: "move_x tm amount cb a = loop_x tm sign cb (sign * int (nat \<bar>m\<bar>)) ?a"
    by (simp only: m)
  from loop_x_result [OF s, of "nat \<bar>m\<bar>" tm cb ?a] obtain k where
    "k \<le> nat \<bar>m\<bar>"
    "loop_x tm sign cb (sign * int (nat \<bar>m\<bar>)) ?a =
       Some ((if k < nat \<bar>m\<bar> then call_back cb else id) (?a\<lparr>x := x ?a + of_int sign * real k\<rparr>))"
    "\<forall>j<k. \<not> check_collision tm (x ?a + of_int sign * (real j + 1)) (y ?a)"
    "k < nat \<bar>m\<bar> \<longrightarrow> check_collision tm (x ?a + of_int sign * (real k + 1)) (y ?a)"
    by blast
  with eq show ?thesis
    by (intro exI [of _ k]) (simp add: upd_swap_x)
qed


lemma loop_y_zero: "loop_y tm sign cb 0 a = Some a"
  by (subst loop_y.simps) simp

lemma loop_y_hit:
  "move \<noteq> 0 \<Longrightarrow> check_collision tm (x a) (y a + of_int sign) \<Longrightarrow>
   loop_y tm sign cb move a = Some (call_back cb a)"
  by (subst loop_y.simps) simp

lemma loop_y_step:
  "move \<noteq> 0 \<Longrightarrow> \<not> check_collision tm (x a) (y a + of_int sign) \<Longrightarrow>
   loop_y tm sign cb move a = loop_y tm sign cb (move - sign) (a\<lparr>y := y a + of_int sign\<rparr>)"
  by (subst loop_y.simps) simp

lemma loop_y_blocked:
  assumes "sign = 1 \<or> sign = - 1"
    and "k < n"
    and "\<forall>j<k. \<not> check_collision tm (x a) (y a + of_int sign * (real j + 1))"
    and "check_collision tm (x a) (y a + of_int sign * (real k + 1))"
  shows "loop_y tm sign cb (sign * int n) a =
         Some (call_back cb (a\<lparr>y := y a + of_int sign * real k\<rparr>))"
  using assms
proof (induction k arbitrary: a n)
  case 0
  then have "sign * int n \<noteq> 0" by auto
  moreover from 0 have "check_collision tm (x a) (y a + of_int sign)" by simp
  ultimately show ?case by (simp add: loop_y_hit)
next
  case (Suc k)
  then obtain n' where n: "n = Suc n'" by (cases n) auto
  from Suc.prems have nz: "sign * int n \<noteq> 0" by auto
  from Suc.prems(3) have free0: "\<not> check_collision tm (x a) (y a + of_int sign)"
    by (drule_tac x = 0 in spec) simp
  let ?a = "a\<lparr>y := y a + of_int sign\<rparr>"
  have free: "\<forall>j<k. \<not> check_collision tm (x ?a) (y ?a + of_int sign * (real j + 1))"
  proof (intro allI impI)
    fix j assume "j < k"
    then have "\<not> check_collision tm (x a) (y a + of_int sign * (real (Suc j) + 1))"
      using Suc.prems(3) by auto
    then show "\<not> check_collision tm (x ?a) (y ?a + of_int sign * (real j + 1))"
      by (simp add: algebra_simps)
  qed
  have hit: "check_collision tm (x ?a) (y ?a + of_int sign * (real k + 1))"
    using Suc.prems(4) by (simp add: algebra_simps)
  have "loop_y tm sign cb (sign * int n) a = loop_y tm sign cb (sign * int n - sign) ?a"
    using nz free0 by (rule loop_y_step)
  also have "sign * int n - sign = sign * int n'" by (simp add: n algebra_simps)
  also have "loop_y tm sign cb (sign * int n') ?a =
             Some (call_back cb (?a\<lparr>y := y ?a + of_int sign * real k\<rparr>))"
    using Suc.prems(1) _ free hit by (rule Suc.IH) (use Suc.prems(2) n in simp)
  finally show ?case by (simp add: algebra_simps)
qed

lemma loop_y_free:
  assumes "sign = 1 \<or> sign = - 1"
    and "\<forall>j<n. \<not> check_collision tm (x a) (y a + of_int sign * (real j + 1))"
  shows "loop_y tm sign cb (sign * int n) a = Some (a\<lparr>y := y a + of_int sign * real n\<rparr>)"
  using assms
proof (induction n arbitrary: a)
  case 0
  then show ?case by (simp add: loop_y_zero)
next
  case (Suc n)
  from Suc.prems have nz: "sign * int (Suc n) \<noteq> 0" by auto
  from Suc.prems(2) have free0: "\<not> check_collision tm (x a) (y a + of_int sign)"
    by (drule_tac x = 0 in spec) simp
  let ?a = "a\<lparr>y := y a + of_int sign\<rparr>"
  have free: "\<forall>j<n. \<not> check_collision tm (x ?a) (y ?a + of_int sign * (real j + 1))"
  proof (intro allI impI)
    fix j assume "j < n"
    then have "\<not> check_collision tm (x a) (y a + of_int sign * (real (Suc j) + 1))"
      using Suc.prems(2) by auto
    then show "\<not> check_collision tm (x ?a) (y ?a + of_int sign * (real j + 1))"
      by (simp add: algebra_simps)
  qed
  have "loop_y tm sign cb (sign * int (Suc n)) a =
        loop_y tm sign cb (sign * int (Suc n) - sign) ?a"
    using nz free0 by (rule loop_y_step)
  also have "sign * int (Suc n) - sign = sign * int n" by (simp add: algebra_simps)
  also have "loop_y tm sign cb (sign * int n) ?a =
             Some (?a\<lparr>y := y ?a + of_int sign * real n\<rparr>)"
    using Suc.prems(1) free by (rule Suc.IH)
  finally show ?case by (simp add: algebra_simps)
qed

text \<open>
  The loop always returns when \<open>sign\<close> is a unit and \<open>move\<close> a non-negative multiple of it:
  it stops after \<open>k\<close> free steps, either at the first blocked probe (\<open>k < n\<close>, the callback
  runs) or when the count is used up (\<open>k = n\<close>).
\<close>

lemma loop_y_result:
  assumes "sign = 1 \<or> sign = - 1"
  shows "\<exists>k\<le>n. loop_y tm sign cb (sign * int n) a =
           Some ((if k < n then call_back cb else id) (a\<lparr>y := y a + of_int sign * real k\<rparr>)) \<and>
         (\<forall>j<k. \<not> check_collision tm (x a) (y a + of_int sign * (real j + 1))) \<and>
         (k < n \<longrightarrow> check_collision tm (x a) (y a + of_int sign * (real k + 1)))"
proof (cases "\<exists>j<n. check_collision tm (x a) (y a + of_int sign * (real j + 1))")
  case True
  define P where "P j \<longleftrightarrow> j < n \<and> check_collision tm (x a) (y a + of_int sign * (real j + 1))" for j
  from True have "\<exists>j. P j" by (auto simp: P_def)
  then obtain k where k: "P k" and least: "\<forall>j<k. \<not> P j"
    using exists_least_iff [of P] by auto
  from k have kn: "k < n" and hit: "check_collision tm (x a) (y a + of_int sign * (real k + 1))"
    by (auto simp: P_def)
  from least kn have free: "\<forall>j<k. \<not> check_collision tm (x a) (y a + of_int sign * (real j + 1))"
    by (auto simp: P_def)
  from loop_y_blocked [OF assms kn free hit, of cb] kn free hit show ?thesis
    by (intro exI [of _ k]) simp
next
  case False
  then have free: "\<forall>j<n. \<not> check_collision tm (x a) (y a + of_int sign * (real j + 1))"
    by blast
  from loop_y_free [OF assms free, of cb] free show ?thesis
    by (intro exI [of _ n]) simp
qed

lemma upd_swap_y:
  fixes a :: "'m actor_scheme"
  shows "a\<lparr>y_remainder := r, y := v\<rparr> = a\<lparr>y := v, y_remainder := r\<rparr>"
  by (cases a) simp

lemma move_y_result:
  assumes r_def: "r = y_remainder a + amount"
    and m_def: "m = py_round r"
    and sign_def: "sign = (if m > 0 then 1 else - 1)"
  shows "\<exists>k\<le>nat \<bar>m\<bar>. move_y tm amount cb a =
           Some ((if k < nat \<bar>m\<bar> then call_back cb else id)
                   (a\<lparr>y := y a + of_int sign * real k, y_remainder := r - of_int m\<rparr>)) \<and>
         (\<forall>j<k. \<not> check_collision tm (x a) (y a + of_int sign * (real j + 1))) \<and>
         (k < nat \<bar>m\<bar> \<longrightarrow> check_collision tm (x a) (y a + of_int sign * (real k + 1)))"
proof (cases "m = 0")
  case True
  then have "move_y tm amount cb a = Some (a\<lparr>y_remainder := r\<rparr>)"
    by (simp add: move_y_def m_def r_def)
  with True show ?thesis by (intro exI [of _ 0]) simp
next
  case False
  let ?a = "a\<lparr>y_remainder := r - of_int m\<rparr>"
  have s: "sign = 1 \<or> sign = - 1" by (simp add: sign_def)
  have m: "sign * int (nat \<bar>m\<bar>) = m" unfolding sign_def by (rule sign_times_abs)
  have "move_y tm amount cb a = loop_y tm sign cb m ?a"
    using False by (simp add: move_y_def m_def r_def sign_def Let_def)
  then have eq: "move_y tm amount cb a = loop_y tm sign cb (sign * int (nat \<bar>m\<bar>)) ?a"
    by (simp only: m)
  from loop_y_result [OF s, of "nat \<bar>m\<bar>" tm cb ?a] obtain k where
    "k \<le> nat \<bar>m\<bar>"
    "loop_y tm sign cb (sign * int (nat \<bar>m\<bar>)) ?a =
       Some ((if k < nat \<bar>m\<bar> then call_back cb else id) (?a\<lparr>y := y ?a + of_int sign * real k\<rparr>))"
    "\<forall>j<k. \<not> check_collision tm (x ?a) (y ?a + of_int sign * (real j + 1))"
    "k < nat \<bar>m\<bar> \<longrightarrow> check_collision tm (x ?a) (y ?a + of_int sign * (real k + 1))"
    by blast
  with eq show ?thesis
    by (intro exI [of _ k]) (simp add: upd_swap_y)
qed

subsection \<open>Single calls\<close>

lemma call_back_fields [simp]:
  "x (call_back cb a) = x a"
  "y (call_back cb a) = y a"
  "x_remainder (call_back cb a) = x_remainder a"
  "y_remainder (call_back cb a) = y_remainder a"
  by (cases cb; simp add: call_back_def)+

text \<open>One call of \<^verbatim>\<open>move_x\<close>: it returns, and what it leaves behind.\<close>

lemma move_x_summary:
  "\<exists>a'. move_x tm amount cb a = Some a' \<and>
        \<bar>x_remainder a'\<bar> \<le> 1 / 2 \<and>
        y_remainder a' = y_remainder a \<and>
        y a' = y a \<and>
        (\<exists>d::int. \<bar>d\<bar> \<le> \<bar>py_round (x_remainder a + amount)\<bar> \<and> x a' = x a + of_int d) \<and>
        (\<not> check_collision tm (x a) (y a) \<longrightarrow> \<not> check_collision tm (x a') (y a'))"
proof -
  define r where "r = x_remainder a + amount"
  define m where "m = py_round r"
  define sign :: int where "sign = (if m > 0 then 1 else - 1)"
  from move_x_result [OF r_def m_def sign_def, of tm cb] obtain k where
    k: "k \<le> nat \<bar>m\<bar>"
    and res: "move_x tm amount cb a =
           Some ((if k < nat \<bar>m\<bar> then call_back cb else id)
                   (a\<lparr>x := x a + of_int sign * real k, x_remainder := r - of_int m\<rparr>))"
    and free: "\<forall>j<k. \<not> check_collision tm (x a + of_int sign * (real j + 1)) (y a)"
    by blast
  define a' where "a' = (if k < nat \<bar>m\<bar> then call_back cb else id)
               (a\<lparr>x := x a + of_int sign * real k, x_remainder := r - of_int m\<rparr>)"
  have ret: "move_x tm amount cb a = Some a'"
    using res by (simp only: a'_def)
  have rem: "\<bar>x_remainder a'\<bar> \<le> 1 / 2"
    using py_round_err [of r] by (simp add: m_def a'_def)
  have other: "y_remainder a' = y_remainder a" "y a' = y a"
    by (simp_all add: a'_def)
  have pos: "x a' = x a + of_int (sign * int k)"
    by (simp add: a'_def)
  have "\<bar>sign * int k\<bar> = int k" by (simp add: sign_def abs_mult)
  also have "\<dots> \<le> \<bar>m\<bar>" using k by linarith
  finally have bound: "\<bar>sign * int k\<bar> \<le> \<bar>py_round (x_remainder a + amount)\<bar>"
    by (simp only: m_def r_def)
  have safe: "\<not> check_collision tm (x a') (y a')" if "\<not> check_collision tm (x a) (y a)"
  proof (cases k)
    case 0
    with that show ?thesis by (simp add: a'_def)
  next
    case (Suc k')
    with free have "\<not> check_collision tm (x a + of_int sign * (real k' + 1)) (y a)" by simp
    with Suc show ?thesis by (simp add: a'_def algebra_simps)
  qed
  from ret rem other pos bound safe show ?thesis by blast
qed


text \<open>One call of \<^verbatim>\<open>move_y\<close>: it returns, and what it leaves behind.\<close>

lemma move_y_summary:
  "\<exists>a'. move_y tm amount cb a = Some a' \<and>
        \<bar>y_remainder a'\<bar> \<le> 1 / 2 \<and>
        x_remainder a' = x_remainder a \<and>
        x a' = x a \<and>
        (\<exists>d::int. \<bar>d\<bar> \<le> \<bar>py_round (y_remainder a + amount)\<bar> \<and> y a' = y a + of_int d) \<and>
        (\<not> check_collision tm (x a) (y a) \<longrightarrow> \<not> check_collision tm (x a') (y a'))"
proof -
  define r where "r = y_remainder a + amount"
  define m where "m = py_round r"
  define sign :: int where "sign = (if m > 0 then 1 else - 1)"
  from move_y_result [OF r_def m_def sign_def, of tm cb] obtain k where
    k: "k \<le> nat \<bar>m\<bar>"
    and res: "move_y tm amount cb a =
           Some ((if k < nat \<bar>m\<bar> then call_back cb else id)
                   (a\<lparr>y := y a + of_int sign * real k, y_remainder := r - of_int m\<rparr>))"
    and free: "\<forall>j<k. \<not> check_collision tm (x a) (y a + of_int sign * (real j + 1))"
    by blast
  define a' where "a' = (if k < nat \<bar>m\<bar> then call_back cb else id)
               (a\<lparr>y := y a + of_int sign * real k, y_remainder := r - of_int m\<rparr>)"
  have ret: "move_y tm amount cb a = Some a'"
    using res by (simp only: a'_def)
  have rem: "\<bar>y_remainder a'\<bar> \<le> 1 / 2"
    using py_round_err [of r] by (simp add: m_def a'_def)
  have other: "x_remainder a' = x_remainder a" "x a' = x a"
    by (simp_all add: a'_def)
  have pos: "y a' = y a + of_int (sign * int k)"
    by (simp add: a'_def)
  have "\<bar>sign * int k\<bar> = int k" by (simp add: sign_def abs_mult)
  also have "\<dots> \<le> \<bar>m\<bar>" using k by linarith
  finally have bound: "\<bar>sign * int k\<bar> \<le> \<bar>py_round (y_remainder a + amount)\<bar>"
    by (simp only: m_def r_def)
  have safe: "\<not> check_collision tm (x a') (y a')" if "\<not> check_collision tm (x a) (y a)"
  proof (cases k)
    case 0
    with that show ?thesis by (simp add: a'_def)
  next
    case (Suc k')
    with free have "\<not> check_collision tm (x a) (y a + of_int sign * (real k' + 1))" by simp
    with Suc show ?thesis by (simp add: a'_def algebra_simps)
  qed
  from ret rem other pos bound safe show ?thesis by blast
qed


subsection \<open>Sequences of calls\<close>

lemma run_calls_summary:
  assumes "\<bar>x_remainder a\<bar> \<le> 1 / 2" and "\<bar>y_remainder a\<bar> \<le> 1 / 2"
  shows "\<exists>a'. run_calls tm cs a = Some a' \<and>
          \<bar>x_remainder a'\<bar> \<le> 1 / 2 \<and> \<bar>y_remainder a'\<bar> \<le> 1 / 2"
  using assms
proof (induction cs arbitrary: a)
  case Nil
  then show ?case by simp
next
  case (Cons c cs)
  show ?case
  proof (cases c)
    case (MoveX amount cb)
    from move_x_summary [of tm amount cb a] obtain a1 where
      "move_x tm amount cb a = Some a1" "\<bar>x_remainder a1\<bar> \<le> 1 / 2"
      "y_remainder a1 = y_remainder a" by blast
    with Cons.IH [of a1] Cons.prems MoveX show ?thesis by simp
  next
    case (MoveY amount cb)
    from move_y_summary [of tm amount cb a] obtain a1 where
      "move_y tm amount cb a = Some a1" "\<bar>y_remainder a1\<bar> \<le> 1 / 2"
      "x_remainder a1 = x_remainder a" by blast
    with Cons.IH [of a1] Cons.prems MoveY show ?thesis by simp
  qed
qed

lemma run_calls_integer:
  assumes "x a \<in> \<int>" and "y a \<in> \<int>"
  shows "\<exists>a'. run_calls tm cs a = Some a' \<and> x a' \<in> \<int> \<and> y a' \<in> \<int>"
  using assms
proof (induction cs arbitrary: a)
  case Nil
  then show ?case by simp
next
  case (Cons c cs)
  show ?case
  proof (cases c)
    case (MoveX amount cb)
    from move_x_summary [of tm amount cb a] obtain a1 d where
      "move_x tm amount cb a = Some a1" "x a1 = x a + of_int d" "y a1 = y a" by blast
    with Cons.IH [of a1] Cons.prems MoveX show ?thesis by simp
  next
    case (MoveY amount cb)
    from move_y_summary [of tm amount cb a] obtain a1 d where
      "move_y tm amount cb a = Some a1" "y a1 = y a + of_int d" "x a1 = x a" by blast
    with Cons.IH [of a1] Cons.prems MoveY show ?thesis by simp
  qed
qed

subsection \<open>Blocked calls and calls of at most one pixel\<close>

text \<open>
  A call of \<^verbatim>\<open>move_x\<close> whose rounded step \<open>m\<close> is not zero and whose probe is blocked
  after \<open>k < \<bar>m\<bar>\<close> free steps.
\<close>

lemma move_x_blocked:
  assumes m_def: "m = py_round (x_remainder a + amount)"
    and nz: "m \<noteq> 0"
    and sign_def: "sign = (if m > 0 then 1 else - 1)"
    and kn: "k < nat \<bar>m\<bar>"
    and free: "\<forall>j<k. \<not> check_collision tm (x a + of_int sign * (real j + 1)) (y a)"
    and hit: "check_collision tm (x a + of_int sign * (real k + 1)) (y a)"
  shows "move_x tm amount cb a =
         Some (a\<lparr>x := x a + of_int sign * real k,
                 x_remainder := x_remainder a + amount - of_int m,
                 more := (case cb of None \<Rightarrow> more a | Some f \<Rightarrow> f (more a))\<rparr>)"
proof -
  let ?a = "a\<lparr>x_remainder := x_remainder a + amount - of_int m\<rparr>"
  have s: "sign = 1 \<or> sign = - 1" by (simp add: sign_def)
  have m: "sign * int (nat \<bar>m\<bar>) = m" unfolding sign_def by (rule sign_times_abs)
  have "move_x tm amount cb a = loop_x tm sign cb m ?a"
    using nz by (simp add: move_x_def m_def sign_def Let_def)
  then have eq: "move_x tm amount cb a = loop_x tm sign cb (sign * int (nat \<bar>m\<bar>)) ?a"
    by (simp only: m)
  have free': "\<forall>j<k. \<not> check_collision tm (x ?a + of_int sign * (real j + 1)) (y ?a)"
    using free by simp
  have hit': "check_collision tm (x ?a + of_int sign * (real k + 1)) (y ?a)"
    using hit by simp
  have "loop_x tm sign cb (sign * int (nat \<bar>m\<bar>)) ?a =
        Some (call_back cb (?a\<lparr>x := x ?a + of_int sign * real k\<rparr>))"
    using s kn free' hit' by (rule loop_x_blocked)
  with eq show ?thesis
    by (cases cb) (simp_all add: call_back_def upd_swap_x)
qed

text \<open>A call of \<^verbatim>\<open>move_x\<close> that stays, moves one pixel forward or one pixel back.\<close>

lemma move_x_stay:
  assumes "\<bar>x_remainder a + d\<bar> \<le> 1 / 2"
  shows "move_x tm d cb a = Some (a\<lparr>x_remainder := x_remainder a + d\<rparr>)"
  using assms by (simp add: move_x_def py_round_zero_iff)

lemma move_x_forward:
  assumes "1 / 2 < x_remainder a + d" and "x_remainder a + d < 3 / 2"
    and "\<not> check_collision tm (x a + 1) (y a)"
  shows "move_x tm d cb a =
         Some (a\<lparr>x := x a + 1, x_remainder := x_remainder a + d - 1\<rparr>)"
proof -
  have m: "py_round (x_remainder a + d) = 1"
    using assms(1,2) by (rule py_round_one)
  let ?a = "a\<lparr>x_remainder := x_remainder a + d - 1\<rparr>"
  have "move_x tm d cb a = loop_x tm 1 cb 1 ?a"
    by (simp add: move_x_def m Let_def)
  also have "\<dots> = loop_x tm 1 cb 0 (?a\<lparr>x := x ?a + 1\<rparr>)"
    using assms(3) by (subst loop_x.simps) simp
  also have "\<dots> = Some (?a\<lparr>x := x ?a + 1\<rparr>)"
    by (rule loop_x_zero)
  finally show ?thesis by (simp add: upd_swap_x)
qed

lemma move_x_backward:
  assumes "x_remainder a + d < - (1 / 2)" and "- (3 / 2) < x_remainder a + d"
    and "\<not> check_collision tm (x a + - 1) (y a)"
  shows "move_x tm d cb a =
         Some (a\<lparr>x := x a - 1, x_remainder := x_remainder a + d + 1\<rparr>)"
proof -
  have m: "py_round (x_remainder a + d) = - 1"
    using assms(1,2) by (rule py_round_minus_one)
  let ?a = "a\<lparr>x_remainder := x_remainder a + d + 1\<rparr>"
  have "move_x tm d cb a = loop_x tm (- 1) cb (- 1) ?a"
    by (simp add: move_x_def m Let_def)
  also have "\<dots> = loop_x tm (- 1) cb 0 (?a\<lparr>x := x ?a - 1\<rparr>)"
    using assms(3) by (subst loop_x.simps) simp
  also have "\<dots> = Some (?a\<lparr>x := x ?a - 1\<rparr>)"
    by (rule loop_x_zero)
  finally show ?thesis by (simp add: upd_swap_x)
qed


text \<open>
  A call of \<^verbatim>\<open>move_y\<close> whose rounded step \<open>m\<close> is not zero and whose probe is blocked
  after \<open>k < \<bar>m\<bar>\<close> free steps.
\<close>

lemma move_y_blocked:
  assumes m_def: "m = py_round (y_remainder a + amount)"
    and nz: "m \<noteq> 0"
    and sign_def: "sign = (if m > 0 then 1 else - 1)"
    and kn: "k < nat \<bar>m\<bar>"
    and free: "\<forall>j<k. \<not> check_collision tm (x a) (y a + of_int sign * (real j + 1))"
    and hit: "check_collision tm (x a) (y a + of_int sign * (real k + 1))"
  shows "move_y tm amount cb a =
         Some (a\<lparr>y := y a + of_int sign * real k,
                 y_remainder := y_remainder a + amount - of_int m,
                 more := (case cb of None \<Rightarrow> more a | Some f \<Rightarrow> f (more a))\<rparr>)"
proof -
  let ?a = "a\<lparr>y_remainder := y_remainder a + amount - of_int m\<rparr>"
  have s: "sign = 1 \<or> sign = - 1" by (simp add: sign_def)
  have m: "sign * int (nat \<bar>m\<bar>) = m" unfolding sign_def by (rule sign_times_abs)
  have "move_y tm amount cb a = loop_y tm sign cb m ?a"
    using nz by (simp add: move_y_def m_def sign_def Let_def)
  then have eq: "move_y tm amount cb a = loop_y tm sign cb (sign * int (nat \<bar>m\<bar>)) ?a"
    by (simp only: m)
  have free': "\<forall>j<k. \<not> check_collision tm (x ?a) (y ?a + of_int sign * (real j + 1))"
    using free by simp
  have hit': "check_collision tm (x ?a) (y ?a + of_int sign * (real k + 1))"
    using hit by simp
  have "loop_y tm sign cb (sign * int (nat \<bar>m\<bar>)) ?a =
        Some (call_back cb (?a\<lparr>y := y ?a + of_int sign * real k\<rparr>))"
    using s kn free' hit' by (rule loop_y_blocked)
  with eq show ?thesis
    by (cases cb) (simp_all add: call_back_def upd_swap_y)
qed

text \<open>A call of \<^verbatim>\<open>move_y\<close> that stays, moves one pixel forward or one pixel back.\<close>

lemma move_y_stay:
  assumes "\<bar>y_remainder a + d\<bar> \<le> 1 / 2"
  shows "move_y tm d cb a = Some (a\<lparr>y_remainder := y_remainder a + d\<rparr>)"
  using assms by (simp add: move_y_def py_round_zero_iff)

lemma move_y_forward:
  assumes "1 / 2 < y_remainder a + d" and "y_remainder a + d < 3 / 2"
    and "\<not> check_collision tm (x a) (y a + 1)"
  shows "move_y tm d cb a =
         Some (a\<lparr>y := y a + 1, y_remainder := y_remainder a + d - 1\<rparr>)"
proof -
  have m: "py_round (y_remainder a + d) = 1"
    using assms(1,2) by (rule py_round_one)
  let ?a = "a\<lparr>y_remainder := y_remainder a + d - 1\<rparr>"
  have "move_y tm d cb a = loop_y tm 1 cb 1 ?a"
    by (simp add: move_y_def m Let_def)
  also have "\<dots> = loop_y tm 1 cb 0 (?a\<lparr>y := y ?a + 1\<rparr>)"
    using assms(3) by (subst loop_y.simps) simp
  also have "\<dots> = Some (?a\<lparr>y := y ?a + 1\<rparr>)"
    by (rule loop_y_zero)
  finally show ?thesis by (simp add: upd_swap_y)
qed

lemma move_y_backward:
  assumes "y_remainder a + d < - (1 / 2)" and "- (3 / 2) < y_remainder a + d"
    and "\<not> check_collision tm (x a) (y a + - 1)"
  shows "move_y tm d cb a =
         Some (a\<lparr>y := y a - 1, y_remainder := y_remainder a + d + 1\<rparr>)"
proof -
  have m: "py_round (y_remainder a + d) = - 1"
    using assms(1,2) by (rule py_round_minus_one)
  let ?a = "a\<lparr>y_remainder := y_remainder a + d + 1\<rparr>"
  have "move_y tm d cb a = loop_y tm (- 1) cb (- 1) ?a"
    by (simp add: move_y_def m Let_def)
  also have "\<dots> = loop_y tm (- 1) cb 0 (?a\<lparr>y := y ?a - 1\<rparr>)"
    using assms(3) by (subst loop_y.simps) simp
  also have "\<dots> = Some (?a\<lparr>y := y ?a - 1\<rparr>)"
    by (rule loop_y_zero)
  finally show ?thesis by (simp add: upd_swap_y)
qed

subsection \<open>Evaluation on numerals\<close>

lemma py_round_of_int: "py_round (of_int n) = n"
  by (simp add: py_round_def)

lemma py_round_numeral: "py_round (numeral n) = numeral n"
  using py_round_of_int [of "numeral n"] by simp

lemma all_less_2: "(\<forall>j<2::nat. P j) \<longleftrightarrow> P 0 \<and> P 1"
  by (auto simp: less_2_cases_iff)

subsection \<open>Five calls of one fifth\<close>

lemma cc_no_walls: "\<not> check_collision no_walls px py"
  unfolding check_collision_def Let_def scan_rows_iff
  by (simp add: no_walls_def EMPTY_TILE_def WALL_TILES_def)

lemma five_calls:
  fixes a :: "'m actor_scheme"
  assumes "x_remainder a = 0" and "\<not> check_collision tm (x a + 1) (y a)"
  shows "run_calls tm (replicate 5 (MoveX (2 / 10) cb)) a =
         Some (a\<lparr>x := x a + 1, x_remainder := 0\<rparr>)"
proof -
  let ?a1 = "a\<lparr>x_remainder := 1 / 5\<rparr>"
  let ?a2 = "a\<lparr>x_remainder := 2 / 5\<rparr>"
  let ?a3 = "a\<lparr>x := x a + 1, x_remainder := - (2 / 5)\<rparr>"
  let ?a4 = "a\<lparr>x := x a + 1, x_remainder := - (1 / 5)\<rparr>"
  let ?a5 = "a\<lparr>x := x a + 1, x_remainder := 0\<rparr>"
  have 1: "move_x tm (1 / 5) cb a = Some ?a1"
    using move_x_stay [of a "1 / 5" tm cb] assms(1) by simp
  have 2: "move_x tm (1 / 5) cb ?a1 = Some ?a2"
    using move_x_stay [of ?a1 "1 / 5" tm cb] by simp
  have 3: "move_x tm (1 / 5) cb ?a2 = Some ?a3"
    using move_x_forward [of ?a2 "1 / 5" tm cb] assms(2) by simp
  have 4: "move_x tm (1 / 5) cb ?a3 = Some ?a4"
    using move_x_stay [of ?a3 "1 / 5" tm cb] by simp
  have 5: "move_x tm (1 / 5) cb ?a4 = Some ?a5"
    using move_x_stay [of ?a4 "1 / 5" tm cb] by simp
  have "replicate 5 (MoveX (1 / 5) cb) =
        [MoveX (1 / 5) cb, MoveX (1 / 5) cb, MoveX (1 / 5) cb, MoveX (1 / 5) cb,
         MoveX (1 / 5) cb]"
    by (simp add: numeral_eq_Suc)
  then show ?thesis by (simp add: 1 2 3 4 5)
qed

subsection \<open>Calls with amount zero\<close>

lemma move_x_zero_fixed:
  assumes "\<bar>x_remainder a\<bar> \<le> 1 / 2"
  shows "move_x tm 0 cb a = Some a"
  using move_x_stay [of a 0 tm cb] assms by simp

lemma replicate_zero_fixed:
  assumes "\<bar>x_remainder a\<bar> \<le> 1 / 2"
  shows "run_calls tm (replicate n (MoveX 0 cb)) a = Some a"
  by (induction n) (simp_all add: move_x_zero_fixed [OF assms])

subsection \<open>A frame of the player\<close>

text \<open>\<^verbatim>\<open>Player.update\<close> returns in every state, for every map and keyboard.\<close>

lemma update_returns: "\<exists>p'. update tm kb p = Some p'"
proof -
  from move_x_summary [of tm "vx (more p)" "Some on_horizontal_collision" p]
  obtain p1 where 1: "move_x tm (vx (more p)) (Some on_horizontal_collision) p = Some p1"
    by blast
  from move_y_summary [of tm "vy (more p1)" "Some on_vertical_collision" p1]
  obtain p2 where 2: "move_y tm (vy (more p1)) (Some on_vertical_collision) p1 = Some p2"
    by blast
  show ?thesis by (simp add: update_def 1 2 Let_def)
qed

section \<open>The claims\<close>

subsection \<open>The collision probe\<close>

lemma scan_rows_upto:
  "scan_rows tm [c0..c1] [r0..r1] \<longleftrightarrow>
     (\<exists>col row. c0 \<le> col \<and> col \<le> c1 \<and> r0 \<le> row \<and> row \<le> r1 \<and> tm col row \<in> {2, 3, 4, 5})"
proof -
  have walls: "set WALL_TILES = {2, 3, 4, 5}" by (simp add: WALL_TILES_def)
  have "scan_rows tm [c0..c1] [r0..r1] \<longleftrightarrow>
        (\<exists>row\<in>{r0..r1}. \<exists>col\<in>{c0..c1}. tm col row \<in> set WALL_TILES)"
    by (simp only: scan_rows_iff set_upto)
  also have "\<dots> \<longleftrightarrow>
        (\<exists>col row. c0 \<le> col \<and> col \<le> c1 \<and> r0 \<le> row \<and> row \<le> r1 \<and> tm col row \<in> set WALL_TILES)"
    unfolding Bex_def atLeastAtMost_iff by blast
  finally show ?thesis by (simp only: walls)
qed

text \<open>
  Claim C4 (collision probe contract). For all real \<open>px\<close> and \<open>py\<close>,
  \<open>check_collision tm px py\<close> is true exactly when some grid cell \<open>(col, row)\<close> with
  \<open>floor (px / TILE_SIZE) \<le> col \<le> floor ((px + TILE_SIZE - 1) / TILE_SIZE)\<close> and
  \<open>floor (py / TILE_SIZE) \<le> row \<le> floor ((py + TILE_SIZE - 1) / TILE_SIZE)\<close>, both ranges
  inclusive, holds one of the wall tile ids 2, 3, 4, 5. The probe is a function of the map and
  the two coordinates and returns a truth value only: it has no state to change.
\<close>

theorem check_collision_contract:
  "check_collision tm px py \<longleftrightarrow>
     (\<exists>col row.
        \<lfloor>px / of_int TILE_SIZE\<rfloor> \<le> col \<and>
        col \<le> \<lfloor>(px + of_int TILE_SIZE - 1) / of_int TILE_SIZE\<rfloor> \<and>
        \<lfloor>py / of_int TILE_SIZE\<rfloor> \<le> row \<and>
        row \<le> \<lfloor>(py + of_int TILE_SIZE - 1) / of_int TILE_SIZE\<rfloor> \<and>
        tm col row \<in> {2, 3, 4, 5})"
  unfolding check_collision_def Let_def by (rule scan_rows_upto)

subsection \<open>Invariants of movement\<close>

text \<open>
  Claim C1 (no tunneling). Take any actor whose tile-sized box at \<open>(x, y)\<close> overlaps no
  wall tile, any amount and any callback. Then \<^verbatim>\<open>move_x\<close> returns, and so does
  \<^verbatim>\<open>move_y\<close>, and the box at the position after the call overlaps no wall tile either:
  \<open>check_collision\<close> is false there.
\<close>

theorem no_tunneling:
  "\<not> check_collision tm (x a) (y a) \<Longrightarrow>
   (\<exists>a'. move_x tm amount cb a = Some a' \<and> \<not> check_collision tm (x a') (y a')) \<and>
   (\<exists>a'. move_y tm amount cb a = Some a' \<and> \<not> check_collision tm (x a') (y a'))"
  using move_x_summary [of tm amount cb a] move_y_summary [of tm amount cb a] by blast

theorem no_tunneling_witness:
  "\<not> check_collision wall_column (x (Actor 30 0)) (y (Actor 30 0)) \<and>
   (\<exists>a'. move_x wall_column 10 None (Actor 30 0) = Some a' \<and>
         \<not> check_collision wall_column (x a') (y a')) \<and>
   (\<exists>a'. move_y wall_column 10 None (Actor 30 0) = Some a' \<and>
         \<not> check_collision wall_column (x a') (y a'))"
proof -
  have h: "\<not> check_collision wall_column (x (Actor 30 0)) (y (Actor 30 0))"
    by (simp add: Actor_def check_collision_def TILE_SIZE_def wall_column_def EMPTY_TILE_def
        WALL_TILES_def)
  from no_tunneling [OF h, of 10 None] h show ?thesis by simp
qed

text \<open>
  Claim C2 (remainder invariant). Start from an actor with both remainders zero and run any
  list of \<^verbatim>\<open>move_x\<close> / \<^verbatim>\<open>move_y\<close> calls with any amounts. After each call, that is after
  every prefix \<open>take n cs\<close> of the list, the run has returned and both stored remainders lie
  strictly between \<open>-1\<close> and \<open>1\<close>.
\<close>

theorem remainder_invariant:
  "x_remainder a = 0 \<Longrightarrow> y_remainder a = 0 \<Longrightarrow>
   \<exists>a'. run_calls tm (take n cs) a = Some a' \<and>
        - 1 < x_remainder a' \<and> x_remainder a' < 1 \<and>
        - 1 < y_remainder a' \<and> y_remainder a' < 1"
proof -
  assume "x_remainder a = 0" "y_remainder a = 0"
  then have "\<bar>x_remainder a\<bar> \<le> 1 / 2" "\<bar>y_remainder a\<bar> \<le> 1 / 2" by simp_all
  from run_calls_summary [OF this, of tm "take n cs"] obtain a' where
    "run_calls tm (take n cs) a = Some a'"
    "\<bar>x_remainder a'\<bar> \<le> 1 / 2" "\<bar>y_remainder a'\<bar> \<le> 1 / 2" by blast
  then show ?thesis by (intro exI [of _ a'] conjI; (assumption | linarith))
qed

theorem remainder_invariant_witness:
  "x_remainder (Actor 0 0) = 0 \<and> y_remainder (Actor 0 0) = 0 \<and>
   (\<exists>a'. run_calls no_walls (take 2 [MoveX (3 / 4) None, MoveY (5 / 2) None, MoveX 7 None])
           (Actor 0 0) = Some a' \<and>
        - 1 < x_remainder a' \<and> x_remainder a' < 1 \<and>
        - 1 < y_remainder a' \<and> y_remainder a' < 1)"
  using remainder_invariant [of "Actor 0 0" no_walls 2
      "[MoveX (3 / 4) None, MoveY (5 / 2) None, MoveX 7 None]"]
  by (simp add: Actor_def)

text \<open>
  Claim C9 (tightened remainder bound). Under the same conditions both stored remainders lie
  in the closed interval from \<open>-1/2\<close> to \<open>1/2\<close>: the step is the remainder rounded to the
  nearest integer, which leaves at most one half (lemma \<open>py_round_err\<close>). The bound is met:
  one call with amount \<open>1/2\<close> leaves the remainder \<open>1/2\<close>.
\<close>

theorem remainder_at_most_half:
  "x_remainder a = 0 \<Longrightarrow> y_remainder a = 0 \<Longrightarrow>
   \<exists>a'. run_calls tm (take n cs) a = Some a' \<and>
        - (1 / 2) \<le> x_remainder a' \<and> x_remainder a' \<le> 1 / 2 \<and>
        - (1 / 2) \<le> y_remainder a' \<and> y_remainder a' \<le> 1 / 2"
proof -
  assume "x_remainder a = 0" "y_remainder a = 0"
  then have "\<bar>x_remainder a\<bar> \<le> 1 / 2" "\<bar>y_remainder a\<bar> \<le> 1 / 2" by simp_all
  from run_calls_summary [OF this, of tm "take n cs"] obtain a' where
    "run_calls tm (take n cs) a = Some a'"
    "\<bar>x_remainder a'\<bar> \<le> 1 / 2" "\<bar>y_remainder a'\<bar> \<le> 1 / 2" by blast
  then show ?thesis by (intro exI [of _ a'] conjI; (assumption | linarith))
qed

theorem remainder_at_most_half_witness:
  "x_remainder (Actor 0 0) = 0 \<and> y_remainder (Actor 0 0) = 0 \<and>
   (\<exists>a'. run_calls no_walls (take 1 [MoveX (1 / 2) None, MoveY (5 / 2) None])
           (Actor 0 0) = Some a' \<and>
        - (1 / 2) \<le> x_remainder a' \<and> x_remainder a' \<le> 1 / 2 \<and>
        - (1 / 2) \<le> y_remainder a' \<and> y_remainder a' \<le> 1 / 2)"
  using remainder_at_most_half [of "Actor 0 0" no_walls 1
      "[MoveX (1 / 2) None, MoveY (5 / 2) None]"]
  by (simp add: Actor_def)

text \<open>
  Claim C10 (integer positions). A call of \<^verbatim>\<open>move_x\<close> changes \<open>x\<close> by a whole number of
  pixels and leaves \<open>y\<close> alone, a call of \<^verbatim>\<open>move_y\<close> changes \<open>y\<close> by a whole number of pixels
  and leaves \<open>x\<close> alone; so for an actor whose \<open>x\<close> and \<open>y\<close> are integers, both are integers
  after any list of calls with any amounts.
\<close>

theorem integer_position_preserved:
  "(\<exists>a' d. move_x tm amount cb a = Some a' \<and> x a' = x a + of_int d \<and> y a' = y a) \<and>
   (\<exists>a' d. move_y tm amount cb a = Some a' \<and> y a' = y a + of_int d \<and> x a' = x a) \<and>
   (x a \<in> \<int> \<and> y a \<in> \<int> \<longrightarrow>
      (\<exists>a'. run_calls tm cs a = Some a' \<and> x a' \<in> \<int> \<and> y a' \<in> \<int>))"
  using move_x_summary [of tm amount cb a] move_y_summary [of tm amount cb a]
    run_calls_integer [of a tm cs]
  by blast

theorem integer_position_preserved_witness:
  "x (Actor 3 4) \<in> \<int> \<and> y (Actor 3 4) \<in> \<int> \<and>
   (\<exists>a'. run_calls wall_column [MoveX (7 / 2) None, MoveY (- (9 / 4)) None] (Actor 3 4) = Some a' \<and>
        x a' \<in> \<int> \<and> y a' \<in> \<int>)"
  using integer_position_preserved [of wall_column 0 None "Actor 3 4"
      "[MoveX (7 / 2) None, MoveY (- (9 / 4)) None]"]
  by (simp add: Actor_def)

subsection \<open>Collisions\<close>

text \<open>
  Claim C3 (a collision halts the motion and discards the rest of the step). Let \<open>m\<close> be the
  rounded whole-pixel step of a \<^verbatim>\<open>move_x\<close> call, not zero, and \<open>sign\<close> its direction. If the
  first \<open>k\<close> probes are free and the next one, at one more pixel along the axis, reports a wall
  before all \<open>\<bar>m\<bar>\<close> pixels have been stepped (\<open>k < \<bar>m\<bar>\<close>), then the call returns with the
  callback, when one is given, applied once; the actor has advanced by the \<open>k\<close> free pixels only,
  the remaining \<open>\<bar>m\<bar> - k\<close> pixels are dropped; and the remainder is the one computed before
  stepping, \<open>x_remainder + amount - m\<close>. The same holds for \<^verbatim>\<open>move_y\<close>.
\<close>

theorem collision_halts_motion:
  "(m = py_round (x_remainder a + amount) \<and> m \<noteq> 0 \<and> sign = (if m > 0 then 1 else - 1) \<and>
    k < nat \<bar>m\<bar> \<and>
    (\<forall>j<k. \<not> check_collision tm (x a + of_int sign * (real j + 1)) (y a)) \<and>
    check_collision tm (x a + of_int sign * (real k + 1)) (y a) \<longrightarrow>
    move_x tm amount cb a =
      Some (a\<lparr>x := x a + of_int sign * real k,
              x_remainder := x_remainder a + amount - of_int m,
              more := (case cb of None \<Rightarrow> more a | Some f \<Rightarrow> f (more a))\<rparr>)) \<and>
   (m = py_round (y_remainder a + amount) \<and> m \<noteq> 0 \<and> sign = (if m > 0 then 1 else - 1) \<and>
    k < nat \<bar>m\<bar> \<and>
    (\<forall>j<k. \<not> check_collision tm (x a) (y a + of_int sign * (real j + 1))) \<and>
    check_collision tm (x a) (y a + of_int sign * (real k + 1)) \<longrightarrow>
    move_y tm amount cb a =
      Some (a\<lparr>y := y a + of_int sign * real k,
              y_remainder := y_remainder a + amount - of_int m,
              more := (case cb of None \<Rightarrow> more a | Some f \<Rightarrow> f (more a))\<rparr>))"
  using move_x_blocked [of m a amount sign k tm cb] move_y_blocked [of m a amount sign k tm cb]
  by blast

theorem collision_halts_motion_witness:
  "move_x wall_column 10 (Some on_horizontal_collision)
       ((Player 30 0)\<lparr>more := \<lparr>vx = 10, vy = 0\<rparr>\<rparr>) =
     Some \<lparr>x = 32, y = 0, x_remainder = 0, y_remainder = 0, \<dots> = \<lparr>vx = 0, vy = 0\<rparr>\<rparr> \<and>
   move_y floor_row (7 / 2) (Some on_vertical_collision)
       ((Player 16 30)\<lparr>more := \<lparr>vx = 0, vy = 7 / 2\<rparr>\<rparr>) =
     Some \<lparr>x = 16, y = 32, x_remainder = 0, y_remainder = - (1 / 2), \<dots> = \<lparr>vx = 0, vy = 0\<rparr>\<rparr>"
proof -
  have r: "py_round (7 / 2) = 4"
    by (simp add: py_round_def)
  have "move_x wall_column 10 (Some on_horizontal_collision)
       ((Player 30 0)\<lparr>more := \<lparr>vx = 10, vy = 0\<rparr>\<rparr>) =
     Some \<lparr>x = 32, y = 0, x_remainder = 0, y_remainder = 0, \<dots> = \<lparr>vx = 0, vy = 0\<rparr>\<rparr>"
    using collision_halts_motion [of 10 "(Player 30 0)\<lparr>more := \<lparr>vx = 10, vy = 0\<rparr>\<rparr>" 10 1 2
        wall_column "Some on_horizontal_collision"]
    by (simp add: Player_def py_round_numeral all_less_2 check_collision_def TILE_SIZE_def
        wall_column_def EMPTY_TILE_def WALL_TILES_def on_horizontal_collision_def)
  moreover have "move_y floor_row (7 / 2) (Some on_vertical_collision)
       ((Player 16 30)\<lparr>more := \<lparr>vx = 0, vy = 7 / 2\<rparr>\<rparr>) =
     Some \<lparr>x = 16, y = 32, x_remainder = 0, y_remainder = - (1 / 2), \<dots> = \<lparr>vx = 0, vy = 0\<rparr>\<rparr>"
    using collision_halts_motion [of 4 "(Player 16 30)\<lparr>more := \<lparr>vx = 0, vy = 7 / 2\<rparr>\<rparr>" "7 / 2" 1 2
        floor_row "Some on_vertical_collision"]
    by (simp add: Player_def r all_less_2 check_collision_def TILE_SIZE_def
        floor_row_def EMPTY_TILE_def WALL_TILES_def on_vertical_collision_def)
  ultimately show ?thesis by simp
qed

subsection \<open>Sub-pixel accumulation\<close>

text \<open>
  Claim C5 (sub-pixel accumulation), as stated: calls with a delta of magnitude below 1
  accumulate in the remainder and produce one pixel of movement once the accumulated remainder
  reaches plus or minus 1. The code rounds the accumulated remainder to the nearest integer, so
  the pixel comes as soon as the accumulated remainder exceeds one half: three calls with
  \<open>1/4\<close> on a map without walls have moved the actor by one pixel, although the amounts add up
  to \<open>3/4\<close> only.
\<close>

theorem pixel_before_remainder_reaches_one:
  "run_calls no_walls [MoveX (1 / 4) None, MoveX (1 / 4) None, MoveX (1 / 4) None] (Actor 0 0) =
     Some \<lparr>x = 1, y = 0, x_remainder = - (1 / 4), y_remainder = 0\<rparr> \<and>
   \<bar>(1 / 4 + 1 / 4 + 1 / 4 :: real)\<bar> < 1"
proof -
  have 1: "move_x no_walls (1 / 4) None (Actor 0 0) =
           Some \<lparr>x = 0, y = 0, x_remainder = 1 / 4, y_remainder = 0\<rparr>"
    using move_x_stay [of "Actor 0 0" "1 / 4" no_walls None] by (simp add: Actor_def)
  have 2: "move_x no_walls (1 / 4) None \<lparr>x = 0, y = 0, x_remainder = 1 / 4, y_remainder = 0\<rparr> =
           Some \<lparr>x = 0, y = 0, x_remainder = 1 / 2, y_remainder = 0\<rparr>"
    using move_x_stay [of "\<lparr>x = 0, y = 0, x_remainder = 1 / 4, y_remainder = 0\<rparr>" "1 / 4" no_walls None]
    by simp
  have 3: "move_x no_walls (1 / 4) None \<lparr>x = 0, y = 0, x_remainder = 1 / 2, y_remainder = 0\<rparr> =
           Some \<lparr>x = 1, y = 0, x_remainder = - (1 / 4), y_remainder = 0\<rparr>"
    using move_x_forward [of "\<lparr>x = 0, y = 0, x_remainder = 1 / 2, y_remainder = 0\<rparr>" "1 / 4"
        no_walls None]
    by (simp add: cc_no_walls)
  show ?thesis by (simp add: 1 2 3)
qed

text \<open>
  Claim C5, amended. Take a call of \<^verbatim>\<open>move_x\<close> with a delta of magnitude below 1 on an actor
  whose stored remainder is at most one half in magnitude (as it is after every call). The
  delta is added to the remainder. While the accumulated remainder is at most one half in
  magnitude the position stays. Once it exceeds one half, and the next pixel is free, the
  actor moves by exactly one pixel in that direction and the remainder is the accumulated
  remainder less that pixel. In particular five unobstructed calls of \<^verbatim>\<open>move_x(0.2)\<close> from a
  zero remainder move the actor by exactly one pixel in total and leave the remainder zero.
\<close>

theorem sub_pixel_accumulation:
  "(\<bar>d\<bar> < 1 \<and> \<bar>x_remainder a\<bar> \<le> 1 / 2 \<longrightarrow>
      (\<bar>x_remainder a + d\<bar> \<le> 1 / 2 \<longrightarrow>
         move_x tm d cb a = Some (a\<lparr>x_remainder := x_remainder a + d\<rparr>)) \<and>
      (1 / 2 < x_remainder a + d \<and> \<not> check_collision tm (x a + 1) (y a) \<longrightarrow>
         move_x tm d cb a = Some (a\<lparr>x := x a + 1, x_remainder := x_remainder a + d - 1\<rparr>)) \<and>
      (x_remainder a + d < - (1 / 2) \<and> \<not> check_collision tm (x a + - 1) (y a) \<longrightarrow>
         move_x tm d cb a = Some (a\<lparr>x := x a - 1, x_remainder := x_remainder a + d + 1\<rparr>))) \<and>
   (x_remainder a = 0 \<and> \<not> check_collision tm (x a + 1) (y a) \<longrightarrow>
      run_calls tm (replicate 5 (MoveX (2 / 10) cb)) a = Some (a\<lparr>x := x a + 1, x_remainder := 0\<rparr>))"
proof (intro conjI impI)
  assume "\<bar>d\<bar> < 1 \<and> \<bar>x_remainder a\<bar> \<le> 1 / 2" "\<bar>x_remainder a + d\<bar> \<le> 1 / 2"
  then show "move_x tm d cb a = Some (a\<lparr>x_remainder := x_remainder a + d\<rparr>)"
    by (intro move_x_stay) simp
next
  assume h: "\<bar>d\<bar> < 1 \<and> \<bar>x_remainder a\<bar> \<le> 1 / 2"
    "1 / 2 < x_remainder a + d \<and> \<not> check_collision tm (x a + 1) (y a)"
  then have "x_remainder a + d < 3 / 2" by linarith
  with h show "move_x tm d cb a = Some (a\<lparr>x := x a + 1, x_remainder := x_remainder a + d - 1\<rparr>)"
    by (intro move_x_forward) simp_all
next
  assume h: "\<bar>d\<bar> < 1 \<and> \<bar>x_remainder a\<bar> \<le> 1 / 2"
    "x_remainder a + d < - (1 / 2) \<and> \<not> check_collision tm (x a + - 1) (y a)"
  then have "- (3 / 2) < x_remainder a + d" by linarith
  with h show "move_x tm d cb a = Some (a\<lparr>x := x a - 1, x_remainder := x_remainder a + d + 1\<rparr>)"
    by (intro move_x_backward) simp_all
next
  assume "x_remainder a = 0 \<and> \<not> check_collision tm (x a + 1) (y a)"
  then show "run_calls tm (replicate 5 (MoveX (2 / 10) cb)) a =
             Some (a\<lparr>x := x a + 1, x_remainder := 0\<rparr>)"
    by (intro five_calls) simp_all
qed

theorem sub_pixel_accumulation_witness:
  "move_x no_walls (1 / 4) None \<lparr>x = 0, y = 0, x_remainder = 1 / 4, y_remainder = 0\<rparr> =
     Some \<lparr>x = 0, y = 0, x_remainder = 1 / 2, y_remainder = 0\<rparr> \<and>
   move_x no_walls (1 / 4) None \<lparr>x = 0, y = 0, x_remainder = 1 / 2, y_remainder = 0\<rparr> =
     Some \<lparr>x = 1, y = 0, x_remainder = - (1 / 4), y_remainder = 0\<rparr> \<and>
   move_x no_walls (- (1 / 4)) None \<lparr>x = 0, y = 0, x_remainder = - (1 / 2), y_remainder = 0\<rparr> =
     Some \<lparr>x = - 1, y = 0, x_remainder = 1 / 4, y_remainder = 0\<rparr> \<and>
   run_calls no_walls (replicate 5 (MoveX (2 / 10) None)) (Actor 0 0) =
     Some \<lparr>x = 1, y = 0, x_remainder = 0, y_remainder = 0\<rparr>"
  using sub_pixel_accumulation [of "1 / 4" "\<lparr>x = 0, y = 0, x_remainder = 1 / 4, y_remainder = 0\<rparr>"
      no_walls None]
    sub_pixel_accumulation [of "1 / 4" "\<lparr>x = 0, y = 0, x_remainder = 1 / 2, y_remainder = 0\<rparr>"
      no_walls None]
    sub_pixel_accumulation [of "- (1 / 4)" "\<lparr>x = 0, y = 0, x_remainder = - (1 / 2), y_remainder = 0\<rparr>"
      no_walls None]
    sub_pixel_accumulation [of 0 "Actor 0 0" no_walls None]
  by (simp add: cc_no_walls Actor_def)

subsection \<open>Zero delta\<close>

text \<open>
  Claim C6 (zero-delta idempotence). Let \<open>a\<close> be any state reached from zero remainders by a
  list of \<^verbatim>\<open>move_x\<close> / \<^verbatim>\<open>move_y\<close> calls. Then \<^verbatim>\<open>move_x(0, cb)\<close> returns the state \<open>a\<close> itself,
  and so does any number of repetitions: the position is unchanged, and so is the part of the
  object that the callback writes, for every callback \<open>cb\<close> (a counter, say), so the callback
  is never run.
\<close>

theorem zero_delta_idempotence:
  "x_remainder a0 = 0 \<Longrightarrow> y_remainder a0 = 0 \<Longrightarrow> run_calls tm cs a0 = Some a \<Longrightarrow>
   move_x tm 0 cb a = Some a \<and> run_calls tm (replicate n (MoveX 0 cb)) a = Some a"
proof -
  assume "x_remainder a0 = 0" "y_remainder a0 = 0" and run: "run_calls tm cs a0 = Some a"
  then have "\<bar>x_remainder a0\<bar> \<le> 1 / 2" "\<bar>y_remainder a0\<bar> \<le> 1 / 2" by simp_all
  from run_calls_summary [OF this, of tm cs] run have "\<bar>x_remainder a\<bar> \<le> 1 / 2" by simp
  then show ?thesis by (simp add: move_x_zero_fixed replicate_zero_fixed)
qed

theorem zero_delta_idempotence_witness:
  "run_calls wall_column [MoveX (1 / 2) (Some Suc)]
       \<lparr>x = 32, y = 0, x_remainder = 0, y_remainder = 0, \<dots> = 0\<rparr> =
     Some \<lparr>x = 32, y = 0, x_remainder = 1 / 2, y_remainder = 0, \<dots> = 0\<rparr> \<and>
   move_x wall_column 0 (Some Suc)
       \<lparr>x = 32, y = 0, x_remainder = 1 / 2, y_remainder = 0, \<dots> = 0\<rparr> =
     Some \<lparr>x = 32, y = 0, x_remainder = 1 / 2, y_remainder = 0, \<dots> = 0\<rparr> \<and>
   run_calls wall_column (replicate 3 (MoveX 0 (Some Suc)))
       \<lparr>x = 32, y = 0, x_remainder = 1 / 2, y_remainder = 0, \<dots> = 0\<rparr> =
     Some \<lparr>x = 32, y = 0, x_remainder = 1 / 2, y_remainder = 0, \<dots> = 0\<rparr>"
proof -
  let ?a0 = "\<lparr>x = 32, y = 0, x_remainder = 0, y_remainder = 0, \<dots> = 0 :: nat\<rparr>"
  have run: "run_calls wall_column [MoveX (1 / 2) (Some Suc)] ?a0 =
     Some \<lparr>x = 32, y = 0, x_remainder = 1 / 2, y_remainder = 0, \<dots> = 0\<rparr>"
    using move_x_stay [of ?a0 "1 / 2" wall_column "Some Suc"] by simp
  have z: "x_remainder ?a0 = 0" "y_remainder ?a0 = 0"
    by simp_all
  from zero_delta_idempotence [OF z run, of "Some Suc" 3] run show ?thesis by simp
qed

subsection \<open>The player: gravity and jump\<close>

text \<open>
  Claim C7 (gravity tiers). \<^verbatim>\<open>Player.update\<close> applies gravity through \<^verbatim>\<open>apply_gravity\<close>. If
  \<open>vy < 0\<close> and the jump key is held, \<open>vy\<close> grows by \<open>0.6 * 0.7 * GRAVITY\<close>; if \<open>vy < 0\<close> and the
  jump key is not held, by \<open>0.7 * GRAVITY\<close>; if \<open>vy \<ge> 0\<close>, by \<open>GRAVITY\<close>, whatever the jump key.
\<close>

theorem gravity_tiers:
  "(vy (more p) < 0 \<and> btn kb KEY_UP \<longrightarrow>
      vy (more (apply_gravity kb p)) = vy (more p) + 0.6 * 0.7 * GRAVITY) \<and>
   (vy (more p) < 0 \<and> \<not> btn kb KEY_UP \<longrightarrow>
      vy (more (apply_gravity kb p)) = vy (more p) + 0.7 * GRAVITY) \<and>
   (0 \<le> vy (more p) \<longrightarrow>
      vy (more (apply_gravity kb p)) = vy (more p) + GRAVITY)"
  by (simp add: apply_gravity_def Let_def)

theorem gravity_tiers_witness:
  "vy (more (apply_gravity \<lparr>btn = (\<lambda>k. k = KEY_UP), btnp = (\<lambda>k. False)\<rparr>
        ((Player 0 0)\<lparr>more := \<lparr>vx = 0, vy = - 1\<rparr>\<rparr>))) = - 1 + 0.6 * 0.7 * GRAVITY \<and>
   vy (more (apply_gravity \<lparr>btn = (\<lambda>k. False), btnp = (\<lambda>k. False)\<rparr>
        ((Player 0 0)\<lparr>more := \<lparr>vx = 0, vy = - 1\<rparr>\<rparr>))) = - 1 + 0.7 * GRAVITY \<and>
   vy (more (apply_gravity \<lparr>btn = (\<lambda>k. k = KEY_UP), btnp = (\<lambda>k. False)\<rparr>
        ((Player 0 0)\<lparr>more := \<lparr>vx = 0, vy = 1\<rparr>\<rparr>))) = 1 + GRAVITY"
  using gravity_tiers [of "(Player 0 0)\<lparr>more := \<lparr>vx = 0, vy = - 1\<rparr>\<rparr>"
      "\<lparr>btn = (\<lambda>k. k = KEY_UP), btnp = (\<lambda>k. False)\<rparr>"]
    gravity_tiers [of "(Player 0 0)\<lparr>more := \<lparr>vx = 0, vy = - 1\<rparr>\<rparr>"
      "\<lparr>btn = (\<lambda>k. False), btnp = (\<lambda>k. False)\<rparr>"]
    gravity_tiers [of "(Player 0 0)\<lparr>more := \<lparr>vx = 0, vy = 1\<rparr>\<rparr>"
      "\<lparr>btn = (\<lambda>k. k = KEY_UP), btnp = (\<lambda>k. False)\<rparr>"]
  by (simp add: Player_def)

text \<open>
  Claim C8 (jump gating). \<^verbatim>\<open>jump\<close> sets \<open>vy\<close> to \<open>- JUMP_POWER\<close> when the probe one tile
  height below the player, \<open>check_collision (x, y + TILE_SIZE)\<close>, reports a wall, and leaves
  \<open>vy\<close> as it is when the probe reports none.
\<close>

theorem jump_gating:
  "(check_collision tm (x p) (y p + of_int TILE_SIZE) \<longrightarrow>
      vy (more (jump tm p)) = - JUMP_POWER) \<and>
   (\<not> check_collision tm (x p) (y p + of_int TILE_SIZE) \<longrightarrow>
      vy (more (jump tm p)) = vy (more p))"
  by (simp add: jump_def)

theorem jump_gating_witness:
  "vy (more (jump floor_row ((Player 16 32)\<lparr>more := \<lparr>vx = 0, vy = 1 / 5\<rparr>\<rparr>))) = - JUMP_POWER \<and>
   vy (more (jump floor_row ((Player 16 0)\<lparr>more := \<lparr>vx = 0, vy = 1 / 5\<rparr>\<rparr>))) = 1 / 5"
  using jump_gating [of floor_row "(Player 16 32)\<lparr>more := \<lparr>vx = 0, vy = 1 / 5\<rparr>\<rparr>"]
    jump_gating [of floor_row "(Player 16 0)\<lparr>more := \<lparr>vx = 0, vy = 1 / 5\<rparr>\<rparr>"]
  by (simp add: Player_def check_collision_def TILE_SIZE_def floor_row_def EMPTY_TILE_def
      WALL_TILES_def)

end
